theory Spec2Isabelle
  imports Main "HOL-Library.Sublist"
begin

section \<open>The host: everything \<open>java.py\<close> reads from outside\<close>

text \<open>
  \<open>cellprofiler_core/utilities/java.py\<close> reads the process environment, \<open>sys\<close>, the
  file system, one preference and the constant \<open>javabridge.JARS\<close>. None of them is
  defined in the module, so each is a field of the record \<open>host\<close>; the library
  functions \<open>os.path.join\<close>, \<open>os.path.dirname\<close>, \<open>os.listdir\<close>, \<open>os.path.isfile\<close>
  and \<open>javabridge.locate.find_jdk\<close> are fields too, since their result depends on
  the platform and the disk. Calls of \<open>LOGGER\<close> only write to the log and are left out.
\<close>

record host =
  environ_CLASSPATH :: "string option"
  environ_CP_JDWP_PORT :: "string option"
  pathsep :: char
  platform :: string
  frozen :: bool
  path_join :: "string \<Rightarrow> string list \<Rightarrow> string"
  dirname :: "string \<Rightarrow> string"
  listdir :: "string \<Rightarrow> string list"
  isfile :: "string \<Rightarrow> bool"
  prokaryote_file :: string
  module_file :: string
  curdir :: string
  JARS :: "string list"
  find_jdk :: "string option"
  get_awt_headless :: bool

section \<open>Python string operations used by the module\<close>

definition backslash :: char where
  "backslash = CHR 0x5C"

text \<open>\<open>s.startswith(p)\<close> and \<open>s.endswith(p)\<close>.\<close>

definition startswith :: "string \<Rightarrow> string \<Rightarrow> bool" where
  "startswith s p = (take (length p) s = p)"

definition endswith :: "string \<Rightarrow> string \<Rightarrow> bool" where
  "endswith s p = (length p \<le> length s \<and> drop (length s - length p) s = p)"

text \<open>\<open>s.lower()\<close> on the ASCII letters; every other byte is kept.\<close>

definition lower_char :: "char \<Rightarrow> char" where
  "lower_char c =
     (let n = (of_char c :: nat) in if 65 \<le> n \<and> n \<le> 90 then char_of (n + 32) else c)"

definition lower :: "string \<Rightarrow> string" where
  "lower s = map lower_char s"

text \<open>
  \<open>s.split(sep)\<close> for a one-character separator: every occurrence of the separator
  ends a segment, so the empty string gives one empty segment and \<open>n\<close> separators give
  \<open>n + 1\<close> segments.
\<close>

fun split :: "string \<Rightarrow> char \<Rightarrow> string list" where
  "split [] sep = [[]]"
| "split (c # cs) sep =
     (if c = sep then [] # split cs sep
      else (case split cs sep of [] \<Rightarrow> [[c]] | w # ws \<Rightarrow> (c # w) # ws))"

text \<open>\<open>sep.join(ws)\<close>, the inverse of \<open>split\<close>.\<close>

fun str_join :: "char \<Rightarrow> string list \<Rightarrow> string" where
  "str_join sep [] = []"
| "str_join sep [w] = w"
| "str_join sep (w # w' # ws) = w @ sep # str_join sep (w' # ws)"

text \<open>\<open>s.replace(old, new)\<close> for one-character \<open>old\<close> and \<open>new\<close>.\<close>

definition replace :: "string \<Rightarrow> char \<Rightarrow> char \<Rightarrow> string" where
  "replace s old new = map (\<lambda>c. if c = old then new else c) s"

section \<open>\<open>get_jars\<close>\<close>

text \<open>
  The list comprehension of lines 37 to 41: the files of the \<open>prokaryote\<close> package
  directory whose lower-cased name ends in \<open>.jar\<close>, each joined to the directory.
\<close>

definition jar_files :: "host \<Rightarrow> string list" where
  "jar_files h =
     (let pathname = dirname h (prokaryote_file h)
      in map (\<lambda>f. path_join h pathname [f])
           (filter (\<lambda>f. endswith (lower f) ''.jar'') (listdir h pathname)))"

text \<open>The tools archive of lines 45 to 54: empty, or the one path \<open><jdk>/lib/tools.jar\<close>.\<close>

definition tools_jar :: "host \<Rightarrow> string list" where
  "tools_jar h =
     (if startswith (platform h) ''win'' \<and> \<not> frozen h then
        (case find_jdk h of
           Some jdk_path \<Rightarrow> [path_join h jdk_path [''lib'', ''tools.jar'']]
         | None \<Rightarrow> [])
      else [])"

definition get_jars :: "host \<Rightarrow> string list" where
  "get_jars h =
     (let class_path = [];
          class_path =
            (case environ_CLASSPATH h of
               Some v \<Rightarrow> class_path @ split v (pathsep h)
             | None \<Rightarrow> class_path);
          class_path = class_path @ (JARS h @ jar_files h);
          class_path = class_path @ tools_jar h
      in class_path)"

section \<open>\<open>find_logback_xml\<close>\<close>

definition logback_paths :: "host \<Rightarrow> string list" where
  "logback_paths h =
     [curdir h,
      dirname h (module_file h),
      path_join h (dirname h (dirname h (dirname h (module_file h))))
        [''java'', ''src'', ''main'', ''resources'']]"

fun first_logback :: "host \<Rightarrow> string list \<Rightarrow> string option" where
  "first_logback h [] = None"
| "first_logback h (path # paths) =
     (let target = path_join h path [''logback.xml'']
      in if isfile h target then Some target else first_logback h paths)"

definition find_logback_xml :: "host \<Rightarrow> string option" where
  "find_logback_xml h = first_logback h (logback_paths h)"

section \<open>The bridge and the process state\<close>

datatype error = IndexError | BridgeError string

text \<open>
  \<open>javabridge\<close> is outside the module. It is taken as an arbitrary state machine over
  a state \<open>'b\<close>: \<open>is_active\<close> reads it, every other operation returns the exception it
  raises (or \<open>None\<close>) and the next bridge state. \<open>cacheDirectoryListings\<close> stands for
  lines 131 and 132 together.
\<close>

record 'b bridge =
  is_active :: "'b \<Rightarrow> bool"
  start_vm :: "string list \<Rightarrow> string list \<Rightarrow> 'b \<Rightarrow> error option \<times> 'b"
  attach :: "'b \<Rightarrow> error option \<times> 'b"
  cacheDirectoryListings :: "'b \<Rightarrow> error option \<times> 'b"
  kill_vm :: "'b \<Rightarrow> error option \<times> 'b"

text \<open>
  Every bridge call the module makes is recorded with its arguments and with what it
  raised, in the order of the calls.
\<close>

datatype event =
    StartVm "string list" "string list" "error option"
  | Attach "error option"
  | CacheDirectoryListings "error option"
  | KillVm "error option"

record 'b proc =
  JAVA_STARTED :: bool
  vm :: 'b
  trace :: "event list"

definition call_start_vm ::
  "'b bridge \<Rightarrow> string list \<Rightarrow> string list \<Rightarrow> 'b proc \<Rightarrow> error option \<times> 'b proc" where
  "call_start_vm B args class_path s =
     (case start_vm B args class_path (vm s) of
        (r, v) \<Rightarrow> (r, s\<lparr>vm := v, trace := trace s @ [StartVm args class_path r]\<rparr>))"

definition call_attach :: "'b bridge \<Rightarrow> 'b proc \<Rightarrow> error option \<times> 'b proc" where
  "call_attach B s =
     (case attach B (vm s) of (r, v) \<Rightarrow> (r, s\<lparr>vm := v, trace := trace s @ [Attach r]\<rparr>))"

definition call_cacheDirectoryListings ::
  "'b bridge \<Rightarrow> 'b proc \<Rightarrow> error option \<times> 'b proc" where
  "call_cacheDirectoryListings B s =
     (case cacheDirectoryListings B (vm s) of
        (r, v) \<Rightarrow> (r, s\<lparr>vm := v, trace := trace s @ [CacheDirectoryListings r]\<rparr>))"

definition call_kill_vm :: "'b bridge \<Rightarrow> 'b proc \<Rightarrow> error option \<times> 'b proc" where
  "call_kill_vm B s =
     (case kill_vm B (vm s) of (r, v) \<Rightarrow> (r, s\<lparr>vm := v, trace := trace s @ [KillVm r]\<rparr>))"

text \<open>A call that raised makes the function raise; one that returned lets it go on.\<close>

definition raised :: "error option \<Rightarrow> error + unit" where
  "raised r = (case r of Some e \<Rightarrow> Inl e | None \<Rightarrow> Inr ())"

section \<open>\<open>start_java\<close> and \<open>stop_java\<close>\<close>

text \<open>
  Lines 105 to 109, the branch taken on Windows. \<open>logback_path[1]\<close> raises
  \<open>IndexError\<close> on a path shorter than two characters.
\<close>

definition win_logback_path :: "string \<Rightarrow> error + string" where
  "win_logback_path logback_path =
     (let logback_path = replace logback_path backslash (CHR ''/'')
      in if length logback_path < 2 then Inl IndexError
         else if logback_path ! 1 = CHR '':'' then
           Inr (''//localhost/'' @ [logback_path ! 0] @ ''$'' @ drop 2 logback_path)
         else Inr logback_path)"

text \<open>
  The hosts on which line 107 raises: Windows, with a located path shorter than two
  characters.
\<close>

definition logback_too_short :: "host \<Rightarrow> bool" where
  "logback_too_short h =
     (startswith (platform h) ''win'' \<and>
      (case find_logback_xml h of Some logback_path \<Rightarrow> length logback_path < 2 | None \<Rightarrow> False))"

text \<open>Lines 102 to 110: the logging-config flag, if a file was found.\<close>

definition logback_args :: "host \<Rightarrow> error + string list" where
  "logback_args h =
     (case find_logback_xml h of
        None \<Rightarrow> Inr []
      | Some logback_path \<Rightarrow>
          (if startswith (platform h) ''win'' then
             (case win_logback_path logback_path of
                Inl e \<Rightarrow> Inl e
              | Inr p \<Rightarrow> Inr [''-Dlogback.configurationFile='' @ p])
           else Inr [''-Dlogback.configurationFile='' @ logback_path]))"

definition headless_args :: "host \<Rightarrow> string list" where
  "headless_args h = (if get_awt_headless h then [''-Djava.awt.headless=true''] else [])"

definition jdwp_args :: "host \<Rightarrow> string list" where
  "jdwp_args h =
     (case environ_CP_JDWP_PORT h of
        Some port \<Rightarrow>
          [''-agentlib:jdwp=transport=dt_socket,address=127.0.0.1:'' @ port
             @ '',server=y,suspend=n'']
      | None \<Rightarrow> [])"

text \<open>Lines 96 to 125: the argument list handed to \<open>javabridge.start_vm\<close>.\<close>

definition startup_args :: "host \<Rightarrow> error + string list" where
  "startup_args h =
     (let args =
            [''-Dloci.bioformats.loaded=true'',
             ''-Djava.util.prefs.PreferencesFactory=''
               @ ''org.cellprofiler.headlesspreferences.HeadlessPreferencesFactory'']
      in case logback_args h of
           Inl e \<Rightarrow> Inl e
         | Inr l \<Rightarrow> Inr (args @ l @ headless_args h @ jdwp_args h))"

text \<open>Lines 126 to 135: the bridge calls of a cold start, then the flag.\<close>

definition cold_start ::
  "'b bridge \<Rightarrow> string list \<Rightarrow> string list \<Rightarrow> 'b proc \<Rightarrow> (error + unit) \<times> 'b proc" where
  "cold_start B args class_path s =
     (case call_start_vm B args class_path s of
        (Some e, s1) \<Rightarrow> (Inl e, s1)
      | (None, s1) \<Rightarrow>
          (case call_attach B s1 of
             (Some e, s2) \<Rightarrow> (Inl e, s2)
           | (None, s2) \<Rightarrow>
               (case call_cacheDirectoryListings B s2 of
                  (Some e, s3) \<Rightarrow> (Inl e, s3)
                | (None, s3) \<Rightarrow> (Inr (), s3\<lparr>JAVA_STARTED := True\<rparr>))))"

definition start_java :: "host \<Rightarrow> 'b bridge \<Rightarrow> 'b proc \<Rightarrow> (error + unit) \<times> 'b proc" where
  "start_java h B s =
     (if is_active B (vm s) then
        (case call_attach B s of (r, s1) \<Rightarrow> (raised r, s1))
      else
        (case startup_args h of
           Inl e \<Rightarrow> (Inl e, s)
         | Inr args \<Rightarrow> cold_start B args (get_jars h) s))"

definition stop_java :: "'b bridge \<Rightarrow> 'b proc \<Rightarrow> (error + unit) \<times> 'b proc" where
  "stop_java B s = (case call_kill_vm B s of (r, s1) \<Rightarrow> (raised r, s1))"

text \<open>Counting the calls of one bridge operation in a trace.\<close>

definition is_StartVm :: "event \<Rightarrow> bool" where
  "is_StartVm ev = (case ev of StartVm a c r \<Rightarrow> True | _ \<Rightarrow> False)"

definition is_Attach :: "event \<Rightarrow> bool" where
  "is_Attach ev = (case ev of Attach r \<Rightarrow> True | _ \<Rightarrow> False)"

definition is_KillVm :: "event \<Rightarrow> bool" where
  "is_KillVm ev = (case ev of KillVm r \<Rightarrow> True | _ \<Rightarrow> False)"

definition start_vm_calls :: "event list \<Rightarrow> nat" where
  "start_vm_calls t = length (filter is_StartVm t)"

definition attach_calls :: "event list \<Rightarrow> nat" where
  "attach_calls t = length (filter is_Attach t)"

definition kill_vm_calls :: "event list \<Rightarrow> nat" where
  "kill_vm_calls t = length (filter is_KillVm t)"

section \<open>A concrete host and bridge\<close>

text \<open>
  A Windows host with a JDK, a logging configuration next to the module and a debug
  port, and a bridge whose state is whether the virtual machine runs: it starts it on
  \<open>start_vm\<close>, stops it on \<open>kill_vm\<close> and never fails.
\<close>

definition join_with :: "char \<Rightarrow> string \<Rightarrow> string list \<Rightarrow> string" where
  "join_with c a ps = foldl (\<lambda>p b. p @ [c] @ b) a ps"

definition win_host :: host where
  "win_host =
     \<lparr>environ_CLASSPATH = Some ''a.jar;b.jar'',
      environ_CP_JDWP_PORT = Some ''5005'',
      pathsep = CHR '';'',
      platform = ''win32'',
      frozen = False,
      path_join = join_with backslash,
      dirname = (\<lambda>p. if p = ''C:'' @ [backslash] @ ''x'' @ [backslash] @ ''java.py''
                      then ''C:'' @ [backslash] @ ''x''
                      else ''D:'' @ [backslash] @ ''pk''),
      listdir = (\<lambda>d. [''one.JAR'', ''notes.txt'', ''two.jar'']),
      isfile = (\<lambda>p. p = ''C:'' @ [backslash] @ ''x'' @ [backslash] @ ''logback.xml''),
      prokaryote_file = ''D:'' @ [backslash] @ ''pk'' @ [backslash] @ ''__init__.py'',
      module_file = ''C:'' @ [backslash] @ ''x'' @ [backslash] @ ''java.py'',
      curdir = ''.'',
      JARS = [''rt.jar'', ''cpython.jar''],
      find_jdk = Some (''E:'' @ [backslash] @ ''jdk''),
      get_awt_headless = True\<rparr>"

definition flag_bridge :: "bool bridge" where
  "flag_bridge =
     \<lparr>is_active = (\<lambda>b. b),
      start_vm = (\<lambda>args class_path b. (None, True)),
      attach = (\<lambda>b. (None, b)),
      cacheDirectoryListings = (\<lambda>b. (None, b)),
      kill_vm = (\<lambda>b. (None, False))\<rparr>"

definition fresh :: "bool proc" where
  "fresh = \<lparr>JAVA_STARTED = False, vm = False, trace = []\<rparr>"

text \<open>The same host as a frozen executable.\<close>

definition frozen_win_host :: host where
  "frozen_win_host = win_host\<lparr>frozen := True\<rparr>"

definition win_path :: string where
  "win_path = ''C:'' @ [backslash] @ ''x'' @ [backslash] @ ''logback.xml''"

definition win_args :: "string list" where
  "win_args =
     [''-Dloci.bioformats.loaded=true'',
      ''-Djava.util.prefs.PreferencesFactory=org.cellprofiler.headlesspreferences.HeadlessPreferencesFactory'',
      ''-Dlogback.configurationFile=//localhost/C$/x/logback.xml'',
      ''-Djava.awt.headless=true'',
      ''-agentlib:jdwp=transport=dt_socket,address=127.0.0.1:5005,server=y,suspend=n'']"

text \<open>
  A Linux host with neither environment variable set, one bundled archive and a
  logging configuration in the working directory.
\<close>

definition posix_host :: host where
  "posix_host =
     \<lparr>environ_CLASSPATH = None,
      environ_CP_JDWP_PORT = None,
      pathsep = CHR '':'',
      platform = ''linux'',
      frozen = False,
      path_join = join_with (CHR ''/''),
      dirname = (\<lambda>p. ''/pk''),
      listdir = (\<lambda>d. [''b.jar'']),
      isfile = (\<lambda>p. p = ''./logback.xml''),
      prokaryote_file = ''/pk/__init__.py'',
      module_file = ''/cp/utilities/java.py'',
      curdir = ''.'',
      JARS = [''rt.jar''],
      find_jdk = None,
      get_awt_headless = False\<rparr>"

section \<open>Order of groups in a list\<close>

text \<open>
  \<open>listed_before xs ys l\<close>: the list \<open>l\<close> holds the group \<open>xs\<close>, unbroken and in its
  order, and later the group \<open>ys\<close>, unbroken and in its order.
\<close>

definition listed_before :: "'a list \<Rightarrow> 'a list \<Rightarrow> 'a list \<Rightarrow> bool" where
  "listed_before xs ys l \<longleftrightarrow> (\<exists>pre mid post. l = pre @ xs @ mid @ ys @ post)"

section \<open>States the module can reach\<close>

text \<open>
  The process starts with the flag unset and an empty trace. The module changes the
  state by \<open>start_java\<close> and \<open>stop_java\<close>, on any host and with any bridge behaviour;
  the bridge state may also change on its own between two calls.
\<close>

inductive reachable :: "'b proc \<Rightarrow> bool" where
  initial: "reachable \<lparr>JAVA_STARTED = False, vm = v, trace = []\<rparr>"
| start: "reachable s \<Longrightarrow> reachable (snd (start_java h B s))"
| stop: "reachable s \<Longrightarrow> reachable (snd (stop_java B s))"
| bridge: "reachable s \<Longrightarrow> reachable (s\<lparr>vm := v\<rparr>)"

text \<open>The bridge calls made between the state \<open>s\<close> and the later state \<open>s'\<close>.\<close>

definition new_events :: "'b proc \<Rightarrow> 'b proc \<Rightarrow> event list" where
  "new_events s s' = drop (length (trace s)) (trace s')"

text \<open>
  A process whose virtual machine runs although this module never started it, and a
  bridge whose start operation raises.
\<close>

definition attached_only :: "bool proc" where
  "attached_only = \<lparr>JAVA_STARTED = False, vm = True, trace = []\<rparr>"

definition broken_bridge :: "bool bridge" where
  "broken_bridge =
     \<lparr>is_active = (\<lambda>b. b),
      start_vm = (\<lambda>args class_path b. (Some (BridgeError ''no JVM''), False)),
      attach = (\<lambda>b. (None, b)),
      cacheDirectoryListings = (\<lambda>b. (None, b)),
      kill_vm = (\<lambda>b. (None, False))\<rparr>"

definition started :: "bool proc" where
  "started =
     \<lparr>JAVA_STARTED = True, vm = True,
      trace = [StartVm win_args (get_jars win_host) None, Attach None,
               CacheDirectoryListings None]\<rparr>"

definition posix_args :: "string list" where
  "posix_args =
     [''-Dloci.bioformats.loaded=true'',
      ''-Djava.util.prefs.PreferencesFactory=org.cellprofiler.headlesspreferences.HeadlessPreferencesFactory'',
      ''-Dlogback.configurationFile=./logback.xml'']"

section \<open>Two threads in \<open>start_java\<close>\<close>

text \<open>
  The module takes no lock, so a second thread may run between any two statements of
  \<open>start_java\<close>. One thread's call is cut at the bridge calls: the test of line 92
  (with the attach of line 93 when the bridge is active), lines 95 to 126 up to the
  return of \<open>start_vm\<close>, the attach of line 130, lines 131 and 132, and the assignment
  of line 135. \<open>Returned\<close> holds what the call gave its caller.
\<close>

datatype pc = Entry | ColdStart | Started | Attached | Cached | Returned "error + unit"

fun thread_step :: "host \<Rightarrow> 'b bridge \<Rightarrow> pc \<Rightarrow> 'b proc \<Rightarrow> pc \<times> 'b proc" where
  "thread_step h B Entry s =
     (if is_active B (vm s) then
        (case call_attach B s of (r, s1) \<Rightarrow> (Returned (raised r), s1))
      else (ColdStart, s))"
| "thread_step h B ColdStart s =
     (case startup_args h of
        Inl e \<Rightarrow> (Returned (Inl e), s)
      | Inr args \<Rightarrow>
          (case call_start_vm B args (get_jars h) s of
             (Some e, s1) \<Rightarrow> (Returned (Inl e), s1)
           | (None, s1) \<Rightarrow> (Started, s1)))"
| "thread_step h B Started s =
     (case call_attach B s of
        (Some e, s1) \<Rightarrow> (Returned (Inl e), s1)
      | (None, s1) \<Rightarrow> (Attached, s1))"
| "thread_step h B Attached s =
     (case call_cacheDirectoryListings B s of
        (Some e, s1) \<Rightarrow> (Returned (Inl e), s1)
      | (None, s1) \<Rightarrow> (Cached, s1))"
| "thread_step h B Cached s = (Returned (Inr ()), s\<lparr>JAVA_STARTED := True\<rparr>)"
| "thread_step h B (Returned r) s = (Returned r, s)"

text \<open>One thread alone, for a number of steps.\<close>

fun thread_run :: "host \<Rightarrow> 'b bridge \<Rightarrow> nat \<Rightarrow> pc \<times> 'b proc \<Rightarrow> pc \<times> 'b proc" where
  "thread_run h B 0 c = c"
| "thread_run h B (Suc n) c = thread_run h B n (thread_step h B (fst c) (snd c))"

text \<open>
  Two threads on one process state; a schedule names the thread that takes each step.
\<close>

datatype thread = T1 | T2

fun sys_step ::
  "host \<Rightarrow> 'b bridge \<Rightarrow> thread \<Rightarrow> pc \<times> pc \<times> 'b proc \<Rightarrow> pc \<times> pc \<times> 'b proc" where
  "sys_step h B T1 (p1, p2, s) = (case thread_step h B p1 s of (p, s1) \<Rightarrow> (p, p2, s1))"
| "sys_step h B T2 (p1, p2, s) = (case thread_step h B p2 s of (p, s1) \<Rightarrow> (p1, p, s1))"

fun run ::
  "host \<Rightarrow> 'b bridge \<Rightarrow> thread list \<Rightarrow> pc \<times> pc \<times> 'b proc \<Rightarrow> pc \<times> pc \<times> 'b proc" where
  "run h B [] c = c"
| "run h B (t # ts) c = run h B ts (sys_step h B t c)"

definition is_Returned :: "pc \<Rightarrow> bool" where
  "is_Returned p = (case p of Returned r \<Rightarrow> True | _ \<Rightarrow> False)"

text \<open>A thread that has not yet reached the return of \<open>start_vm\<close>.\<close>

definition before_start :: "pc \<Rightarrow> bool" where
  "before_start p = (p = Entry \<or> p = ColdStart)"

definition pending :: "pc \<Rightarrow> nat" where
  "pending p = (if before_start p then 1 else 0)"

definition in_cold_start :: "pc \<Rightarrow> nat" where
  "in_cold_start p = (if p = ColdStart then 1 else 0)"

text \<open>The bridge starts recorded in the trace of a two-thread state.\<close>

definition calls_of :: "pc \<times> pc \<times> 'b proc \<Rightarrow> nat" where
  "calls_of c = start_vm_calls (trace (snd (snd c)))"

text \<open>
  Two schedules: the threads alternating, so that both pass the test of line 92
  before either reaches \<open>start_vm\<close>; and the first thread alone until it has returned.
\<close>

definition racy :: "thread list" where
  "racy = [T1, T2, T1, T2, T1, T2, T1, T2, T1, T2]"

definition serial :: "thread list" where
  "serial = [T1, T1, T1, T1, T1]"

section \<open>Facts about the string operations\<close>

lemma split_not_Nil: "split s c \<noteq> []"
  by (induction s) (auto split: list.splits)

lemma split_length: "length (split s c) = Suc (length (filter (\<lambda>x. x = c) s))"
  by (induction s) (auto simp: split_not_Nil split: list.splits)

lemma split_no_sep: "w \<in> set (split s c) \<Longrightarrow> c \<notin> set w"
  by (induction s arbitrary: w) (auto simp: split_not_Nil split: list.splits if_splits)

lemma str_join_split: "str_join c (split s c) = s"
proof (induction s)
  case Nil
  then show ?case by simp
next
  case (Cons x xs)
  obtain w ws where sp: "split xs c = w # ws"
    using split_not_Nil [of xs c] by (cases "split xs c") auto
  show ?case
  proof (cases "x = c")
    case True
    then show ?thesis using Cons sp by simp
  next
    case False
    then show ?thesis using Cons sp by (cases ws) auto
  qed
qed

lemma replace_no_old: "old \<noteq> new \<Longrightarrow> old \<notin> set (replace s old new)"
  by (auto simp: replace_def)

section \<open>The classpath\<close>

lemma get_jars_eq:
  "get_jars h = (case environ_CLASSPATH h of None \<Rightarrow> [] | Some v \<Rightarrow> split v (pathsep h))
       @ JARS h @ jar_files h @ tools_jar h"
  by (simp add: get_jars_def Let_def split: option.splits)

lemma jar_files_posix: "jar_files posix_host = [''/pk/b.jar'']"
  by (simp add: posix_host_def jar_files_def endswith_def lower_def lower_char_def join_with_def)

lemma JARS_posix: "JARS posix_host = [''rt.jar'']"
  by (simp add: posix_host_def)

lemma get_jars_posix: "get_jars posix_host = [''rt.jar'', ''/pk/b.jar'']"
  by (simp add: get_jars_eq jar_files_posix JARS_posix)
     (simp add: posix_host_def tools_jar_def startswith_def)

lemma split_win_host: "split ''a.jar;b.jar'' (pathsep win_host) = [''a.jar'', ''b.jar'']"
  by (simp add: win_host_def)

text \<open>
  Claim C3, as stated: in the list \<open>get_jars\<close> returns, the archives found in the
  package directory come before \<open>javabridge.JARS\<close>. Line 43 appends
  \<open>javabridge.JARS + jar_files\<close>, the other way round: on a host with one bundled
  archive and one required archive the required one is first.
\<close>

theorem get_jars_bundled_first_counterexample:
  "\<not> listed_before (jar_files posix_host) (JARS posix_host) (get_jars posix_host)"
  unfolding get_jars_posix jar_files_posix JARS_posix listed_before_def
  by (auto simp: Cons_eq_append_conv)

text \<open>
  Claim C3, amended: in the list \<open>get_jars\<close> returns, the bridge's required archives
  \<open>javabridge.JARS\<close>, in their order, come before the archives found in the package
  directory, and those are joined to the directory and keep the order of the
  directory listing.
\<close>

theorem get_jars_required_first:
  "listed_before (JARS h) (jar_files h) (get_jars h)
   \<and> (\<exists>names. subseq names (listdir h (dirname h (prokaryote_file h)))
        \<and> jar_files h = map (\<lambda>f. path_join h (dirname h (prokaryote_file h)) [f]) names)"
proof
  have "get_jars h = (case environ_CLASSPATH h of None \<Rightarrow> [] | Some v \<Rightarrow> split v (pathsep h))
       @ JARS h @ [] @ jar_files h @ tools_jar h"
    by (simp add: get_jars_eq)
  then show "listed_before (JARS h) (jar_files h) (get_jars h)"
    unfolding listed_before_def by blast
next
  show "\<exists>names. subseq names (listdir h (dirname h (prokaryote_file h)))
        \<and> jar_files h = map (\<lambda>f. path_join h (dirname h (prokaryote_file h)) [f]) names"
    unfolding jar_files_def Let_def using subseq_filter_left by blast
qed

theorem get_jars_required_first_witness:
  "listed_before [''rt.jar''] [''/pk/b.jar''] [''rt.jar'', ''/pk/b.jar'']"
  using get_jars_required_first [of posix_host]
  by (simp add: get_jars_posix jar_files_posix JARS_posix)

text \<open>
  Claim C5. When \<open>CLASSPATH\<close> is set and splits into \<open>n\<close> segments at the path
  separator, the list \<open>get_jars\<close> returns starts with exactly these \<open>n\<close> segments in
  their order: joined again with the separator they give the value of the variable,
  and \<open>n\<close> is one more than the number of separators in it. The rest is the required
  archives \<open>javabridge.JARS\<close>; then the bundled archives, which are the names of the
  listing of the package directory whose lower-cased form ends in \<open>.jar\<close>, in the order
  of the listing, each joined to the directory; then at most one tools archive,
  \<open><jdk>/lib/tools.jar\<close>, which is there exactly on Windows, in a process that is not
  frozen, when a JDK was found.
\<close>

theorem get_jars_environment_first:
  "environ_CLASSPATH h = Some v \<Longrightarrow> length (split v (pathsep h)) = n \<Longrightarrow>
   take n (get_jars h) = split v (pathsep h)
   \<and> str_join (pathsep h) (take n (get_jars h)) = v
   \<and> n = Suc (length (filter (\<lambda>c. c = pathsep h) v))
   \<and> drop n (get_jars h) = JARS h @ jar_files h @ tools_jar h
   \<and> jar_files h =
        map (\<lambda>f. path_join h (dirname h (prokaryote_file h)) [f])
          (filter (\<lambda>f. endswith (lower f) ''.jar'') (listdir h (dirname h (prokaryote_file h))))
   \<and> tools_jar h =
        (if startswith (platform h) ''win'' \<and> \<not> frozen h then
           (case find_jdk h of
              Some jdk_path \<Rightarrow> [path_join h jdk_path [''lib'', ''tools.jar'']]
            | None \<Rightarrow> [])
         else [])
   \<and> length (tools_jar h) \<le> 1
   \<and> (tools_jar h \<noteq> [] \<longleftrightarrow>
        startswith (platform h) ''win'' \<and> \<not> frozen h \<and> find_jdk h \<noteq> None)"
proof (intro conjI)
  assume a: "environ_CLASSPATH h = Some v" "length (split v (pathsep h)) = n"
  then show t: "take n (get_jars h) = split v (pathsep h)"
    by (simp add: get_jars_eq)
  show "str_join (pathsep h) (take n (get_jars h)) = v"
    unfolding t by (rule str_join_split)
  show "n = Suc (length (filter (\<lambda>c. c = pathsep h) v))"
    using a(2) by (simp add: split_length)
  show "drop n (get_jars h) = JARS h @ jar_files h @ tools_jar h"
    using a by (simp add: get_jars_eq)
  show "jar_files h =
        map (\<lambda>f. path_join h (dirname h (prokaryote_file h)) [f])
          (filter (\<lambda>f. endswith (lower f) ''.jar'') (listdir h (dirname h (prokaryote_file h))))"
    by (simp add: jar_files_def Let_def)
  show "tools_jar h =
        (if startswith (platform h) ''win'' \<and> \<not> frozen h then
           (case find_jdk h of
              Some jdk_path \<Rightarrow> [path_join h jdk_path [''lib'', ''tools.jar'']]
            | None \<Rightarrow> [])
         else [])"
    by (simp add: tools_jar_def)
  show "length (tools_jar h) \<le> 1"
    by (simp add: tools_jar_def split: option.splits)
  show "(tools_jar h \<noteq> []) = (startswith (platform h) ''win'' \<and> \<not> frozen h \<and> find_jdk h \<noteq> None)"
    by (auto simp: tools_jar_def split: option.splits)
qed

lemma is_jar_examples:
  "endswith (lower ''one.JAR'') ''.jar''"
  "\<not> endswith (lower ''notes.txt'') ''.jar''"
  "endswith (lower ''two.jar'') ''.jar''"
  by code_simp+

theorem get_jars_environment_first_witness:
  "take 2 (get_jars win_host) = [''a.jar'', ''b.jar'']
   \<and> str_join (CHR '';'') (take 2 (get_jars win_host)) = ''a.jar;b.jar''
   \<and> drop 2 (get_jars win_host) =
       [''rt.jar'', ''cpython.jar'',
        ''D:'' @ [backslash] @ ''pk'' @ [backslash] @ ''one.JAR'',
        ''D:'' @ [backslash] @ ''pk'' @ [backslash] @ ''two.jar'',
        ''E:'' @ [backslash] @ ''jdk'' @ [backslash] @ ''lib'' @ [backslash] @ ''tools.jar'']"
proof -
  have h1: "environ_CLASSPATH win_host = Some ''a.jar;b.jar''"
    by (simp add: win_host_def)
  have h2: "length (split ''a.jar;b.jar'' (pathsep win_host)) = 2"
    unfolding split_win_host by simp
  note t = get_jars_environment_first [OF h1 h2]
  note t1 = t [THEN conjunct1]
  note t2 = t [THEN conjunct2, THEN conjunct1]
  note t4 = t [THEN conjunct2, THEN conjunct2, THEN conjunct2, THEN conjunct1]
  note t5 = t [THEN conjunct2, THEN conjunct2, THEN conjunct2, THEN conjunct2, THEN conjunct1]
  note t6 = t [THEN conjunct2, THEN conjunct2, THEN conjunct2, THEN conjunct2, THEN conjunct2,
      THEN conjunct1]
  have j: "jar_files win_host =
       [''D:'' @ [backslash] @ ''pk'' @ [backslash] @ ''one.JAR'',
        ''D:'' @ [backslash] @ ''pk'' @ [backslash] @ ''two.jar'']"
    unfolding t5
    by (simp add: win_host_def is_jar_examples join_with_def backslash_def)
  have k: "tools_jar win_host =
       [''E:'' @ [backslash] @ ''jdk'' @ [backslash] @ ''lib'' @ [backslash] @ ''tools.jar'']"
    unfolding t6 by (simp add: win_host_def startswith_def join_with_def backslash_def)
  have p: "pathsep win_host = CHR '';''" "JARS win_host = [''rt.jar'', ''cpython.jar'']"
    by (simp_all add: win_host_def)
  show ?thesis
  proof (intro conjI)
    show "take 2 (get_jars win_host) = [''a.jar'', ''b.jar'']"
      using t1 unfolding split_win_host .
    show "str_join (CHR '';'') (take 2 (get_jars win_host)) = ''a.jar;b.jar''"
      using t2 unfolding p .
    show "drop 2 (get_jars win_host) =
       [''rt.jar'', ''cpython.jar'',
        ''D:'' @ [backslash] @ ''pk'' @ [backslash] @ ''one.JAR'',
        ''D:'' @ [backslash] @ ''pk'' @ [backslash] @ ''two.jar'',
        ''E:'' @ [backslash] @ ''jdk'' @ [backslash] @ ''lib'' @ [backslash] @ ''tools.jar'']"
      unfolding t4 j k p by simp
  qed
qed

section \<open>The logging-config path\<close>

lemma find_logback_xml_win_host: "find_logback_xml win_host = Some win_path"
  by (simp add: find_logback_xml_def logback_paths_def win_host_def join_with_def
      win_path_def backslash_def)

lemma find_logback_xml_posix: "find_logback_xml posix_host = Some ''./logback.xml''"
  by (simp add: find_logback_xml_def logback_paths_def posix_host_def join_with_def)

lemma find_logback_xml_frozen: "find_logback_xml (h\<lparr>frozen := b\<rparr>) = find_logback_xml h"
proof -
  have eq: "first_logback (h\<lparr>frozen := b\<rparr>) ps = first_logback h ps" for ps
    by (induction ps) (simp_all add: Let_def)
  show ?thesis by (simp only: find_logback_xml_def eq) (simp add: logback_paths_def)
qed

lemma win_logback_path_win_path:
  "win_logback_path win_path = Inr ''//localhost/C$/x/logback.xml''"
  by (simp add: win_logback_path_def win_path_def replace_def backslash_def)

lemma logback_args_frozen: "logback_args (h\<lparr>frozen := b\<rparr>) = logback_args h"
  by (simp add: logback_args_def find_logback_xml_frozen split: option.splits)

lemma startup_args_frozen: "startup_args (h\<lparr>frozen := b\<rparr>) = startup_args h"
  by (simp add: startup_args_def logback_args_frozen headless_args_def jdwp_args_def
      split: sum.splits)

lemma logback_args_win_host:
  "logback_args win_host = Inr [''-Dlogback.configurationFile=//localhost/C$/x/logback.xml'']"
  by (simp add: logback_args_def find_logback_xml_win_host win_logback_path_win_path)
     (simp add: win_host_def startswith_def)

lemma logback_args_posix:
  "logback_args posix_host = Inr [''-Dlogback.configurationFile=./logback.xml'']"
  by (simp add: logback_args_def find_logback_xml_posix)
     (simp add: posix_host_def startswith_def)

lemma startup_args_win_host: "startup_args win_host = Inr win_args"
  by (simp add: startup_args_def logback_args_win_host headless_args_def jdwp_args_def
      win_args_def)
     (simp add: win_host_def)

lemma win_logback_path_no_backslash:
  assumes "win_logback_path p = Inr q"
  shows "backslash \<notin> set q"
proof -
  define r where "r = replace p backslash (CHR ''/'')"
  have nb: "backslash \<notin> set r"
    unfolding r_def by (rule replace_no_old) (simp add: backslash_def)
  have len: "2 \<le> length r"
    using assms by (auto simp: win_logback_path_def Let_def r_def split: if_splits)
  show ?thesis
  proof (cases "r ! 1 = CHR '':''")
    case True
    then have q: "q = ''//localhost/'' @ [r ! 0] @ ''$'' @ drop 2 r"
      using assms len by (auto simp: win_logback_path_def Let_def r_def split: if_splits)
    have "r ! 0 \<in> set r" using len by (cases r) auto
    then have "r ! 0 \<noteq> backslash" using nb by auto
    moreover have "backslash \<notin> set (drop 2 r)" using nb by (auto dest: in_set_dropD)
    ultimately show ?thesis unfolding q by (auto simp: backslash_def)
  next
    case False
    then have "q = r"
      using assms len by (auto simp: win_logback_path_def Let_def r_def split: if_splits)
    then show ?thesis using nb by simp
  qed
qed

text \<open>
  Claim C4, as stated: on Windows in a frozen executable the located logging-config
  path is appended as it was found. Line 105 tests the platform only, so the frozen
  Windows host gets the rewritten path and not the located one.
\<close>

theorem frozen_windows_rewrites_counterexample:
  "startswith (platform frozen_win_host) ''win''
   \<and> frozen frozen_win_host
   \<and> find_logback_xml frozen_win_host = Some win_path
   \<and> startup_args frozen_win_host = Inr win_args
   \<and> ''-Dlogback.configurationFile='' @ win_path \<notin> set win_args
   \<and> ''-Dlogback.configurationFile=//localhost/C$/x/logback.xml'' \<in> set win_args"
  unfolding frozen_win_host_def
  by (simp add: startup_args_frozen startup_args_win_host find_logback_xml_frozen
        find_logback_xml_win_host)
     (simp add: win_host_def startswith_def win_path_def win_args_def backslash_def)

text \<open>
  Claim C4, amended: the rewriting is applied to the logging-config path only and on
  Windows only, whether or not the executable is frozen. The argument list does not
  depend on the frozen indicator; off Windows the flag carries the located path
  unchanged; on Windows it carries the rewritten path; and the argument list is the
  two fixed flags, this flag, the headless flag and the debug flag, nothing else
  being rewritten.
\<close>

theorem rewriting_only_on_windows:
  "startup_args (h\<lparr>frozen := b\<rparr>) = startup_args h
   \<and> (\<not> startswith (platform h) ''win'' \<longrightarrow>
        logback_args h =
          (case find_logback_xml h of
             None \<Rightarrow> Inr []
           | Some p \<Rightarrow> Inr [''-Dlogback.configurationFile='' @ p]))
   \<and> (startswith (platform h) ''win'' \<longrightarrow>
        logback_args h =
          (case find_logback_xml h of
             None \<Rightarrow> Inr []
           | Some p \<Rightarrow>
               map_sum id (\<lambda>q. [''-Dlogback.configurationFile='' @ q]) (win_logback_path p)))
   \<and> (\<forall>args. startup_args h = Inr args \<longrightarrow>
        (\<exists>l. logback_args h = Inr l \<and> args =
          [''-Dloci.bioformats.loaded=true'',
           ''-Djava.util.prefs.PreferencesFactory=org.cellprofiler.headlesspreferences.HeadlessPreferencesFactory'']
          @ l @ headless_args h @ jdwp_args h))"
proof (intro conjI)
  show "startup_args (h\<lparr>frozen := b\<rparr>) = startup_args h"
    by (rule startup_args_frozen)
qed (auto simp: logback_args_def startup_args_def split: option.splits sum.splits)

theorem rewriting_only_on_windows_witness:
  "startup_args (win_host\<lparr>frozen := True\<rparr>) = Inr win_args
   \<and> logback_args win_host = Inr [''-Dlogback.configurationFile=//localhost/C$/x/logback.xml'']
   \<and> logback_args posix_host = Inr [''-Dlogback.configurationFile=./logback.xml'']"
proof -
  have w: "startswith (platform win_host) ''win''"
    by (simp add: win_host_def startswith_def)
  have p: "\<not> startswith (platform posix_host) ''win''"
    by (simp add: posix_host_def startswith_def)
  show ?thesis
    using rewriting_only_on_windows [where h = win_host and b = True]
      rewriting_only_on_windows [where h = posix_host and b = False]
      w p
    by (simp add: startup_args_win_host find_logback_xml_win_host find_logback_xml_posix
        win_logback_path_win_path)
qed

text \<open>
  Claim C6. On the Windows branch the path \<open>C:\x\logback.xml\<close> becomes exactly
  \<open>//localhost/C$/x/logback.xml\<close>. In general a path whose second character is a colon
  has its first two characters replaced by \<open>//localhost/\<close>, the first character and a
  dollar sign; every backslash becomes a forward slash, so no backslash is left; and
  the rewritten path is what the logging-config flag carries.
\<close>

theorem win_logback_path_rewrites:
  "win_logback_path (''C:'' @ [backslash] @ ''x'' @ [backslash] @ ''logback.xml'')
     = Inr ''//localhost/C$/x/logback.xml''
   \<and> win_logback_path (d # CHR '':'' # rest)
     = Inr (''//localhost/'' @ replace [d] backslash (CHR ''/'') @ ''$''
              @ replace rest backslash (CHR ''/''))
   \<and> (c \<noteq> CHR '':'' \<longrightarrow>
        win_logback_path (d # c # rest) = Inr (replace (d # c # rest) backslash (CHR ''/'')))
   \<and> (win_logback_path p = Inr q \<longrightarrow> backslash \<notin> set q)
   \<and> (startswith (platform h) ''win'' \<and> find_logback_xml h = Some p
        \<and> win_logback_path p = Inr q
        \<longrightarrow> (\<exists>args. startup_args h = Inr args
              \<and> ''-Dlogback.configurationFile='' @ q \<in> set args))"
  apply (intro conjI)
  subgoal using win_logback_path_win_path by (simp add: win_path_def)
  subgoal by (simp add: win_logback_path_def replace_def backslash_def)
  subgoal by (simp add: win_logback_path_def replace_def backslash_def)
  subgoal using win_logback_path_no_backslash by blast
  subgoal by (simp add: startup_args_def logback_args_def)
  done

theorem win_logback_path_rewrites_witness:
  "win_logback_path (CHR ''a'' # CHR ''b'' # [backslash]) = Inr ''ab/''
   \<and> backslash \<notin> set ''//localhost/C$/x/logback.xml''
   \<and> (\<exists>args. startup_args win_host = Inr args
        \<and> ''-Dlogback.configurationFile=//localhost/C$/x/logback.xml'' \<in> set args)"
proof -
  have w: "startswith (platform win_host) ''win''"
    by (simp add: win_host_def startswith_def)
  have c: "CHR ''b'' \<noteq> CHR '':''" by simp
  show ?thesis
    using win_logback_path_rewrites
      [where d = "CHR ''a''" and c = "CHR ''b''" and rest = "[backslash]" and p = win_path
         and q = "''//localhost/C$/x/logback.xml''" and h = win_host]
      w c find_logback_xml_win_host win_logback_path_win_path
    by (simp add: replace_def backslash_def)
qed

section \<open>\<open>stop_java\<close>\<close>

text \<open>
  Claim C9. Every call of \<open>stop_java\<close> calls the bridge's kill operation exactly once,
  whatever the state before it (also when nothing was ever started) and whether or not
  the kill raises, makes no other bridge call, and leaves \<open>JAVA_STARTED\<close> as it was.
\<close>

theorem stop_java_kills_once:
  "trace (snd (stop_java B s)) = trace s @ [KillVm (fst (kill_vm B (vm s)))]
   \<and> kill_vm_calls (trace (snd (stop_java B s))) = kill_vm_calls (trace s) + 1
   \<and> JAVA_STARTED (snd (stop_java B s)) = JAVA_STARTED s
   \<and> fst (stop_java B s) = raised (fst (kill_vm B (vm s)))"
  by (simp add: stop_java_def call_kill_vm_def kill_vm_calls_def is_KillVm_def
      split: prod.splits)

section \<open>\<open>start_java\<close>: the two paths\<close>

lemma cold_start_outcome:
  "(\<exists>e. fst (cold_start B args cp s) = Inl e
        \<and> JAVA_STARTED (snd (cold_start B args cp s)) = JAVA_STARTED s
        \<and> (trace (snd (cold_start B args cp s)) = trace s @ [StartVm args cp (Some e)]
           \<or> trace (snd (cold_start B args cp s)) = trace s @ [StartVm args cp None, Attach (Some e)]
           \<or> trace (snd (cold_start B args cp s))
                = trace s @ [StartVm args cp None, Attach None, CacheDirectoryListings (Some e)]))
   \<or> (fst (cold_start B args cp s) = Inr ()
        \<and> JAVA_STARTED (snd (cold_start B args cp s))
        \<and> trace (snd (cold_start B args cp s))
             = trace s @ [StartVm args cp None, Attach None, CacheDirectoryListings None])"
  by (auto simp: cold_start_def call_start_vm_def call_attach_def call_cacheDirectoryListings_def
      split: prod.splits option.splits)

lemma start_java_active:
  "is_active B (vm s) \<Longrightarrow>
   start_java h B s =
     (raised (fst (attach B (vm s))),
      s\<lparr>vm := snd (attach B (vm s)), trace := trace s @ [Attach (fst (attach B (vm s)))]\<rparr>)"
  by (simp add: start_java_def call_attach_def split: prod.splits)

lemma start_java_cold:
  "\<not> is_active B (vm s) \<Longrightarrow> startup_args h = Inr args \<Longrightarrow>
   start_java h B s = cold_start B args (get_jars h) s"
  by (simp add: start_java_def)

lemma start_java_index_error:
  "\<not> is_active B (vm s) \<Longrightarrow> startup_args h = Inl e \<Longrightarrow> start_java h B s = (Inl e, s)"
  by (simp add: start_java_def)

lemma start_java_inactive_outcome:
  assumes "\<not> is_active B (vm s)"
  shows "(\<exists>e. start_java h B s = (Inl e, s) \<and> startup_args h = Inl e)
   \<or> (\<exists>args. startup_args h = Inr args \<and>
        ((\<exists>e. fst (start_java h B s) = Inl e
           \<and> JAVA_STARTED (snd (start_java h B s)) = JAVA_STARTED s
           \<and> (trace (snd (start_java h B s)) = trace s @ [StartVm args (get_jars h) (Some e)]
              \<or> trace (snd (start_java h B s))
                   = trace s @ [StartVm args (get_jars h) None, Attach (Some e)]
              \<or> trace (snd (start_java h B s))
                   = trace s @ [StartVm args (get_jars h) None, Attach None,
                                CacheDirectoryListings (Some e)]))
         \<or> (fst (start_java h B s) = Inr ()
             \<and> JAVA_STARTED (snd (start_java h B s))
             \<and> trace (snd (start_java h B s))
                  = trace s @ [StartVm args (get_jars h) None, Attach None,
                               CacheDirectoryListings None])))"
proof (cases "startup_args h")
  case (Inl e)
  then show ?thesis using assms by (simp add: start_java_index_error)
next
  case (Inr args)
  then show ?thesis
    using assms cold_start_outcome [of B args "get_jars h" s]
    by (simp add: start_java_cold)
qed

lemma start_vm_calls_append [simp]: "start_vm_calls (t @ u) = start_vm_calls t + start_vm_calls u"
  by (simp add: start_vm_calls_def)

lemma attach_calls_append [simp]: "attach_calls (t @ u) = attach_calls t + attach_calls u"
  by (simp add: attach_calls_def)

lemma calls_simps [simp]:
  "start_vm_calls [] = 0" "attach_calls [] = 0"
  "start_vm_calls (StartVm a c r # t) = Suc (start_vm_calls t)"
  "start_vm_calls (Attach r # t) = start_vm_calls t"
  "start_vm_calls (CacheDirectoryListings r # t) = start_vm_calls t"
  "start_vm_calls (KillVm r # t) = start_vm_calls t"
  "attach_calls (StartVm a c r # t) = attach_calls t"
  "attach_calls (Attach r # t) = Suc (attach_calls t)"
  "attach_calls (CacheDirectoryListings r # t) = attach_calls t"
  "attach_calls (KillVm r # t) = attach_calls t"
  by (simp_all add: start_vm_calls_def attach_calls_def is_StartVm_def is_Attach_def)

lemma stop_java_trace: "trace (snd (stop_java B s)) = trace s @ [KillVm (fst (kill_vm B (vm s)))]"
  by (simp add: stop_java_def call_kill_vm_def split: prod.splits)

lemma stop_java_flag: "JAVA_STARTED (snd (stop_java B s)) = JAVA_STARTED s"
  by (simp add: stop_java_def call_kill_vm_def split: prod.splits)

lemma start_java_trace_grows: "\<exists>new. trace (snd (start_java h B s)) = trace s @ new"
proof (cases "is_active B (vm s)")
  case True
  then show ?thesis by (simp add: start_java_active)
next
  case False
  from start_java_inactive_outcome [OF False, of h] show ?thesis by auto
qed

lemma start_java_flag_set:
  assumes "JAVA_STARTED (snd (start_java h B s))" "\<not> JAVA_STARTED s"
  shows "\<exists>args cp. StartVm args cp None \<in> set (trace (snd (start_java h B s)))"
proof (cases "is_active B (vm s)")
  case True
  then show ?thesis using assms by (simp add: start_java_active)
next
  case False
  from start_java_inactive_outcome [OF False, of h] assms show ?thesis by fastforce
qed

lemma reachable_started:
  "reachable s \<Longrightarrow> JAVA_STARTED s \<Longrightarrow> \<exists>args cp. StartVm args cp None \<in> set (trace s)"
proof (induction rule: reachable.induct)
  case (initial v)
  then show ?case by simp
next
  case (start s h B)
  show ?case
  proof (cases "JAVA_STARTED s")
    case True
    with start.IH obtain args cp where "StartVm args cp None \<in> set (trace s)" by blast
    moreover obtain new where "trace (snd (start_java h B s)) = trace s @ new"
      using start_java_trace_grows by blast
    ultimately show ?thesis by auto
  next
    case False
    show ?thesis by (rule start_java_flag_set [OF start.prems False])
  qed
next
  case (stop s B)
  then show ?case by (simp add: stop_java_trace stop_java_flag)
next
  case (bridge s v)
  then show ?case by simp
qed

lemma start_java_win_fresh: "start_java win_host flag_bridge fresh = (Inr (), started)"
  by (simp add: start_java_def startup_args_win_host cold_start_def call_start_vm_def
      call_attach_def call_cacheDirectoryListings_def flag_bridge_def fresh_def started_def)

lemma start_java_broken:
  "start_java win_host broken_bridge fresh =
     (Inl (BridgeError ''no JVM''),
      \<lparr>JAVA_STARTED = False, vm = False,
       trace = [StartVm win_args (get_jars win_host) (Some (BridgeError ''no JVM''))]\<rparr>)"
  by (simp add: start_java_def startup_args_win_host cold_start_def call_start_vm_def
      broken_bridge_def fresh_def)

lemma startup_args_posix: "startup_args posix_host = Inr posix_args"
  by (simp add: startup_args_def logback_args_posix headless_args_def jdwp_args_def
      posix_args_def)
     (simp add: posix_host_def)

lemma start_java_posix_fresh:
  "start_java posix_host flag_bridge fresh =
     (Inr (),
      \<lparr>JAVA_STARTED = True, vm = True,
       trace = [StartVm posix_args (get_jars posix_host) None, Attach None,
                CacheDirectoryListings None]\<rparr>)"
  by (simp add: start_java_def startup_args_posix cold_start_def call_start_vm_def
      call_attach_def call_cacheDirectoryListings_def flag_bridge_def fresh_def)

text \<open>
  Claim C1. In every state the module can reach, \<open>JAVA_STARTED\<close> is true only if the
  trace holds a bridge start that returned without raising. On the cold-start path
  (bridge inactive at entry) a call that turns the flag on has returned normally; a
  call that returns normally has set the flag after exactly three bridge calls, the
  start, the attach and the directory-caching call, none of which raised; a call that
  raises leaves the flag as it was; and whatever one of the three bridge calls raises
  is what the call raises.
\<close>

theorem started_only_after_cold_start:
  "(reachable s \<and> JAVA_STARTED s \<longrightarrow> (\<exists>args cp. StartVm args cp None \<in> set (trace s)))
   \<and> (\<not> is_active B (vm s) \<longrightarrow>
        (JAVA_STARTED (snd (start_java h B s)) \<and> \<not> JAVA_STARTED s
           \<longrightarrow> fst (start_java h B s) = Inr ())
        \<and> (fst (start_java h B s) = Inr () \<longrightarrow>
             JAVA_STARTED (snd (start_java h B s))
             \<and> (\<exists>args. new_events s (snd (start_java h B s))
                  = [StartVm args (get_jars h) None, Attach None, CacheDirectoryListings None]))
        \<and> (\<forall>e. fst (start_java h B s) = Inl e \<longrightarrow>
             JAVA_STARTED (snd (start_java h B s)) = JAVA_STARTED s)
        \<and> (\<forall>e. (\<exists>args cp. StartVm args cp (Some e) \<in> set (new_events s (snd (start_java h B s))))
                \<or> Attach (Some e) \<in> set (new_events s (snd (start_java h B s)))
                \<or> CacheDirectoryListings (Some e) \<in> set (new_events s (snd (start_java h B s)))
             \<longrightarrow> fst (start_java h B s) = Inl e))"
proof (intro conjI impI)
  assume "reachable s \<and> JAVA_STARTED s"
  then show "\<exists>args cp. StartVm args cp None \<in> set (trace s)"
    using reachable_started by blast
next
  assume a: "\<not> is_active B (vm s)"
  assume "JAVA_STARTED (snd (start_java h B s)) \<and> \<not> JAVA_STARTED s"
  with start_java_inactive_outcome [OF a, of h]
  show "fst (start_java h B s) = Inr ()" by auto
next
  assume a: "\<not> is_active B (vm s)" and "fst (start_java h B s) = Inr ()"
  with start_java_inactive_outcome [OF a, of h]
  show "JAVA_STARTED (snd (start_java h B s))" by auto
next
  assume a: "\<not> is_active B (vm s)" and "fst (start_java h B s) = Inr ()"
  with start_java_inactive_outcome [OF a, of h]
  show "\<exists>args. new_events s (snd (start_java h B s))
                  = [StartVm args (get_jars h) None, Attach None, CacheDirectoryListings None]"
    by (auto simp: new_events_def)
next
  assume a: "\<not> is_active B (vm s)"
  from start_java_inactive_outcome [OF a, of h]
  show "\<forall>e. fst (start_java h B s) = Inl e \<longrightarrow>
             JAVA_STARTED (snd (start_java h B s)) = JAVA_STARTED s"
    by auto
next
  assume a: "\<not> is_active B (vm s)"
  from start_java_inactive_outcome [OF a, of h]
  show "\<forall>e. (\<exists>args cp. StartVm args cp (Some e) \<in> set (new_events s (snd (start_java h B s))))
                \<or> Attach (Some e) \<in> set (new_events s (snd (start_java h B s)))
                \<or> CacheDirectoryListings (Some e) \<in> set (new_events s (snd (start_java h B s)))
             \<longrightarrow> fst (start_java h B s) = Inl e"
    by (auto simp: new_events_def)
qed

theorem started_only_after_cold_start_witness:
  "JAVA_STARTED started
   \<and> (\<exists>args cp. StartVm args cp None \<in> set (trace started))
   \<and> fst (start_java win_host flag_bridge fresh) = Inr ()
   \<and> fst (start_java win_host broken_bridge fresh) = Inl (BridgeError ''no JVM'')
   \<and> JAVA_STARTED (snd (start_java win_host broken_bridge fresh)) = JAVA_STARTED fresh"
proof -
  have "reachable fresh"
    unfolding fresh_def by (rule reachable.initial)
  then have "reachable (snd (start_java win_host flag_bridge fresh))"
    by (rule reachable.start)
  then have r: "reachable started"
    by (simp add: start_java_win_fresh)
  have f: "JAVA_STARTED started" by (simp add: started_def)
  have i: "\<not> is_active flag_bridge (vm fresh)" by (simp add: flag_bridge_def fresh_def)
  have j: "\<not> is_active broken_bridge (vm fresh)" by (simp add: broken_bridge_def fresh_def)
  show ?thesis
    using started_only_after_cold_start [where s = started and B = flag_bridge and h = win_host]
      started_only_after_cold_start [where s = fresh and B = flag_bridge and h = win_host]
      started_only_after_cold_start [where s = fresh and B = broken_bridge and h = win_host]
      r f i j
    by (simp add: start_java_win_fresh start_java_broken)
qed

text \<open>
  Claim C10. When the bridge reports active at entry, \<open>start_java\<close> makes one bridge
  call, the attach, and returns what the attach gave: the result and the state are
  written without the host, so they are the same on every host (no environment
  variable, preference or classpath source is used); the bridge start is not called
  and \<open>JAVA_STARTED\<close> keeps its value, so it stays false in a process whose virtual
  machine is active but was not started by this module.
\<close>

theorem active_bridge_attach_only:
  "is_active B (vm s) \<Longrightarrow>
     start_java h B s =
       (raised (fst (attach B (vm s))),
        s\<lparr>vm := snd (attach B (vm s)), trace := trace s @ [Attach (fst (attach B (vm s)))]\<rparr>)
     \<and> start_java h B s = start_java h' B s
     \<and> JAVA_STARTED (snd (start_java h B s)) = JAVA_STARTED s
     \<and> start_vm_calls (trace (snd (start_java h B s))) = start_vm_calls (trace s)
     \<and> attach_calls (trace (snd (start_java h B s))) = attach_calls (trace s) + 1"
  by (simp add: start_java_active)

theorem active_bridge_attach_only_witness:
  "is_active flag_bridge (vm attached_only)
   \<and> start_java win_host flag_bridge attached_only = start_java posix_host flag_bridge attached_only
   \<and> \<not> JAVA_STARTED (snd (start_java win_host flag_bridge attached_only))
   \<and> is_active flag_bridge (vm (snd (start_java win_host flag_bridge attached_only)))
   \<and> trace (snd (start_java win_host flag_bridge attached_only)) = [Attach None]"
proof -
  have a: "is_active flag_bridge (vm attached_only)"
    by (simp add: flag_bridge_def attached_only_def)
  have at: "attach flag_bridge (vm attached_only) = (None, True)"
    by (simp add: flag_bridge_def attached_only_def)
  note t = active_bridge_attach_only
      [where B = flag_bridge and s = attached_only and h = win_host and h' = posix_host, OF a]
  from t have e: "start_java win_host flag_bridge attached_only =
      (raised None, attached_only\<lparr>vm := True, trace := trace attached_only @ [Attach None]\<rparr>)"
    by (simp add: at)
  show ?thesis
  proof (intro conjI)
    show "is_active flag_bridge (vm attached_only)" by (rule a)
    show "start_java win_host flag_bridge attached_only
            = start_java posix_host flag_bridge attached_only"
      using t by blast
    show "\<not> JAVA_STARTED (snd (start_java win_host flag_bridge attached_only))"
      unfolding e by (simp add: attached_only_def)
    show "is_active flag_bridge (vm (snd (start_java win_host flag_bridge attached_only)))"
      unfolding e by (simp add: flag_bridge_def)
    show "trace (snd (start_java win_host flag_bridge attached_only)) = [Attach None]"
      unfolding e by (simp add: attached_only_def)
  qed
qed

lemma startup_args_built:
  "\<not> logback_too_short h \<Longrightarrow> \<exists>args. startup_args h = Inr args"
  by (auto simp: logback_too_short_def startup_args_def logback_args_def win_logback_path_def
      replace_def Let_def split: option.splits sum.splits if_splits)

lemma startup_args_not_built:
  "logback_too_short h \<Longrightarrow> startup_args h = Inl IndexError"
  by (auto simp: logback_too_short_def startup_args_def logback_args_def win_logback_path_def
      replace_def Let_def split: option.splits sum.splits if_splits)

lemma cold_start_events:
  "\<exists>rest. new_events s (snd (cold_start B args cp s))
             = StartVm args cp (fst (start_vm B args cp (vm s))) # rest
     \<and> start_vm_calls rest = 0
     \<and> (fst (start_vm B args cp (vm s)) = None \<longrightarrow> attach_calls rest = 1)
     \<and> (fst (start_vm B args cp (vm s)) \<noteq> None \<longrightarrow> rest = [])"
  by (auto simp: new_events_def cold_start_def call_start_vm_def call_attach_def
      call_cacheDirectoryListings_def split: prod.splits option.splits)

lemma new_events_trace:
  "trace (snd (start_java h B s)) = trace s @ new_events s (snd (start_java h B s))"
  using start_java_trace_grows [of h B s] by (auto simp: new_events_def)

lemma not_too_short_win_host: "\<not> logback_too_short win_host"
  by (simp add: logback_too_short_def find_logback_xml_win_host win_path_def)

lemma not_too_short_posix_host: "\<not> logback_too_short posix_host"
  by (simp add: logback_too_short_def find_logback_xml_posix)

text \<open>
  Claim C7. When \<open>start_java\<close> is called twice in sequence, the first call entered with
  the bridge inactive and the second with the bridge active, the two calls together
  call the bridge's start operation exactly once and its attach operation exactly
  twice. The first call is one that gets past its bridge start: the host is not one on
  which line 107 raises, and the bridge start, given the argument list of that host,
  does not raise.
\<close>

theorem start_java_twice:
  assumes "\<not> is_active B (vm s)"
    and "\<not> logback_too_short h"
    and "\<And>args. startup_args h = Inr args \<Longrightarrow> fst (start_vm B args (get_jars h) (vm s)) = None"
    and "is_active B (vm (snd (start_java h B s)))"
  shows "start_vm_calls (trace (snd (start_java h' B (snd (start_java h B s)))))
           = start_vm_calls (trace s) + 1
    \<and> attach_calls (trace (snd (start_java h' B (snd (start_java h B s)))))
           = attach_calls (trace s) + 2"
proof -
  from startup_args_built [OF assms(2)] obtain args where sa: "startup_args h = Inr args"
    by blast
  have ok: "fst (start_vm B args (get_jars h) (vm s)) = None"
    by (rule assms(3) [OF sa])
  have sj: "start_java h B s = cold_start B args (get_jars h) s"
    using assms(1) sa by (rule start_java_cold)
  from cold_start_events [of s B args "get_jars h"] ok obtain rest where
    "new_events s (snd (start_java h B s)) = StartVm args (get_jars h) None # rest"
    "start_vm_calls rest = 0" "attach_calls rest = 1"
    unfolding sj by auto
  then have "start_vm_calls (trace (snd (start_java h B s))) = start_vm_calls (trace s) + 1"
    and "attach_calls (trace (snd (start_java h B s))) = attach_calls (trace s) + 1"
    using new_events_trace [of h B s] by simp_all
  then show ?thesis
    using assms(4) by (simp add: start_java_active)
qed

theorem start_java_twice_witness:
  "start_vm_calls
     (trace (snd (start_java win_host flag_bridge (snd (start_java win_host flag_bridge fresh)))))
     = 1
   \<and> attach_calls
     (trace (snd (start_java win_host flag_bridge (snd (start_java win_host flag_bridge fresh)))))
     = 2"
proof -
  have i: "\<not> is_active flag_bridge (vm fresh)" by (simp add: flag_bridge_def fresh_def)
  have ok: "fst (start_vm flag_bridge args (get_jars win_host) (vm fresh)) = None" for args
    by (simp add: flag_bridge_def)
  have a: "is_active flag_bridge (vm (snd (start_java win_host flag_bridge fresh)))"
    unfolding start_java_win_fresh by (simp add: flag_bridge_def started_def)
  have z: "start_vm_calls (trace fresh) = 0" "attach_calls (trace fresh) = 0"
    by (simp_all add: fresh_def)
  show ?thesis
    using start_java_twice [OF i not_too_short_win_host ok a, of win_host] unfolding z by simp
qed

lemma start_java_new_events:
  assumes "\<not> is_active B (vm s)" and "startup_args h = Inr args"
  shows "\<exists>r rest. new_events s (snd (start_java h B s)) = StartVm args (get_jars h) r # rest
          \<and> (\<forall>a c r'. StartVm a c r' \<in> set rest \<longrightarrow> False)"
  using start_java_inactive_outcome [OF assms(1), of h] assms(2)
  by (auto simp: new_events_def)

lemma start_java_start_vm_args:
  assumes "StartVm a c r \<in> set (new_events s (snd (start_java h B s)))"
  shows "\<not> is_active B (vm s) \<and> startup_args h = Inr a \<and> c = get_jars h"
proof (cases "is_active B (vm s)")
  case True
  then show ?thesis using assms by (simp add: start_java_active new_events_def)
next
  case False
  from start_java_inactive_outcome [OF False, of h] assms False
  show ?thesis by (auto simp: new_events_def)
qed

lemma startup_args_jdwp:
  assumes "startup_args h = Inr args"
  shows "\<exists>front. args = front @ jdwp_args h \<and> (\<forall>a\<in>set front. \<not> prefix ''-agentlib'' a)"
proof -
  from assms obtain l where l: "logback_args h = Inr l"
    and args: "args = [''-Dloci.bioformats.loaded=true'',
           ''-Djava.util.prefs.PreferencesFactory=org.cellprofiler.headlesspreferences.HeadlessPreferencesFactory'']
          @ l @ headless_args h @ jdwp_args h"
    by (auto simp: startup_args_def split: sum.splits)
  have "\<forall>a\<in>set l. \<not> prefix ''-agentlib'' a"
    using l by (auto simp: logback_args_def split: option.splits if_splits sum.splits)
  moreover have "\<forall>a\<in>set (headless_args h). \<not> prefix ''-agentlib'' a"
    by (simp add: headless_args_def)
  ultimately have "\<forall>a\<in>set ([''-Dloci.bioformats.loaded=true'',
           ''-Djava.util.prefs.PreferencesFactory=org.cellprofiler.headlesspreferences.HeadlessPreferencesFactory'']
          @ l @ headless_args h). \<not> prefix ''-agentlib'' a"
    by auto
  then show ?thesis using args by (metis append.assoc)
qed

lemma jdwp_args_port:
  "environ_CP_JDWP_PORT h = Some port \<Longrightarrow>
   jdwp_args h = [''-agentlib:jdwp=transport=dt_socket,'' @ (''address=127.0.0.1:'' @ port @ '',server=y,suspend=n'')]"
  by (simp add: jdwp_args_def)

text \<open>
  Claim C8. A call of \<open>start_java\<close> entered with the bridge inactive, on a host on which
  line 107 does not raise, builds an argument list and passes it to the bridge's start
  operation, its first bridge call and its only bridge start. With \<open>CP_JDWP_PORT\<close> set
  to \<open>5005\<close> one argument of that list contains
  \<open>address=127.0.0.1:5005,server=y,suspend=n\<close>; with the variable set to any port the
  list is the two fixed flags, the logging-config flag, the headless flag and, last,
  the JDWP flag with that port; with the variable unset the list ends with the
  headless flag and no argument is an agent flag.
\<close>

theorem debug_agent_flag:
  assumes "\<not> is_active B (vm s)" and "\<not> logback_too_short h"
  shows "\<exists>args l rest.
      startup_args h = Inr args
      \<and> logback_args h = Inr l
      \<and> new_events s (snd (start_java h B s))
          = StartVm args (get_jars h) (fst (start_vm B args (get_jars h) (vm s))) # rest
      \<and> start_vm_calls rest = 0
      \<and> (environ_CP_JDWP_PORT h = Some ''5005'' \<longrightarrow>
            (\<exists>a\<in>set args. sublist ''address=127.0.0.1:5005,server=y,suspend=n'' a))
      \<and> (environ_CP_JDWP_PORT h = Some port \<longrightarrow>
            args = [''-Dloci.bioformats.loaded=true'',
                    ''-Djava.util.prefs.PreferencesFactory=org.cellprofiler.headlesspreferences.HeadlessPreferencesFactory'']
                   @ l @ headless_args h
                   @ [''-agentlib:jdwp=transport=dt_socket,address=127.0.0.1:'' @ port
                        @ '',server=y,suspend=n''])
      \<and> (environ_CP_JDWP_PORT h = None \<longrightarrow>
            args = [''-Dloci.bioformats.loaded=true'',
                    ''-Djava.util.prefs.PreferencesFactory=org.cellprofiler.headlesspreferences.HeadlessPreferencesFactory'']
                   @ l @ headless_args h
            \<and> (\<forall>a\<in>set args. \<not> prefix ''-agentlib'' a))"
proof -
  from startup_args_built [OF assms(2)] obtain args where sa: "startup_args h = Inr args"
    by blast
  then obtain l where l: "logback_args h = Inr l"
    and args: "args = [''-Dloci.bioformats.loaded=true'',
           ''-Djava.util.prefs.PreferencesFactory=org.cellprofiler.headlesspreferences.HeadlessPreferencesFactory'']
          @ l @ headless_args h @ jdwp_args h"
    by (auto simp: startup_args_def split: sum.splits)
  from startup_args_jdwp [OF sa] obtain front where
    fr: "args = front @ jdwp_args h" and front: "\<forall>a\<in>set front. \<not> prefix ''-agentlib'' a"
    by blast
  have sj: "start_java h B s = cold_start B args (get_jars h) s"
    using assms(1) sa by (rule start_java_cold)
  from cold_start_events [of s B args "get_jars h"] obtain rest where
    ev: "new_events s (snd (start_java h B s))
          = StartVm args (get_jars h) (fst (start_vm B args (get_jars h) (vm s))) # rest"
    and rest: "start_vm_calls rest = 0"
    unfolding sj by auto
  have c1: "\<exists>a\<in>set args. sublist ''address=127.0.0.1:5005,server=y,suspend=n'' a"
    if p: "environ_CP_JDWP_PORT h = Some ''5005''"
  proof -
    have "sublist ''address=127.0.0.1:5005,server=y,suspend=n''
       (''-agentlib:jdwp=transport=dt_socket,'' @ ''address=127.0.0.1:5005,server=y,suspend=n'' @ [])"
      by (rule sublist_appendI)
    then show ?thesis using fr jdwp_args_port [OF p] by simp
  qed
  have c2: "args = [''-Dloci.bioformats.loaded=true'',
                    ''-Djava.util.prefs.PreferencesFactory=org.cellprofiler.headlesspreferences.HeadlessPreferencesFactory'']
                   @ l @ headless_args h
                   @ [''-agentlib:jdwp=transport=dt_socket,address=127.0.0.1:'' @ port
                        @ '',server=y,suspend=n'']"
    if p: "environ_CP_JDWP_PORT h = Some port"
    using args jdwp_args_port [OF p] by simp
  have c3: "args = [''-Dloci.bioformats.loaded=true'',
                    ''-Djava.util.prefs.PreferencesFactory=org.cellprofiler.headlesspreferences.HeadlessPreferencesFactory'']
                   @ l @ headless_args h
            \<and> (\<forall>a\<in>set args. \<not> prefix ''-agentlib'' a)"
    if p: "environ_CP_JDWP_PORT h = None"
    using args fr front p by (simp add: jdwp_args_def)
  show ?thesis
    apply (rule exI [of _ args])
    apply (rule exI [of _ l])
    apply (rule exI [of _ rest])
    using sa l ev rest c1 c2 c3 apply (intro conjI impI)
    by simp_all
qed

theorem debug_agent_flag_witness:
  "(\<exists>args rest.
      startup_args win_host = Inr args
      \<and> new_events fresh (snd (start_java win_host flag_bridge fresh))
           = StartVm args (get_jars win_host) None # rest
      \<and> args ! 4 = ''-agentlib:jdwp=transport=dt_socket,address=127.0.0.1:5005,server=y,suspend=n''
      \<and> length args = 5)
   \<and> (\<exists>args rest.
      startup_args posix_host = Inr args
      \<and> new_events fresh (snd (start_java posix_host flag_bridge fresh))
           = StartVm args (get_jars posix_host) None # rest
      \<and> args = [''-Dloci.bioformats.loaded=true'',
                 ''-Djava.util.prefs.PreferencesFactory=org.cellprofiler.headlesspreferences.HeadlessPreferencesFactory'',
                 ''-Dlogback.configurationFile=./logback.xml''])"
proof -
  have i: "\<not> is_active flag_bridge (vm fresh)" by (simp add: flag_bridge_def fresh_def)
  have ew: "environ_CP_JDWP_PORT win_host = Some ''5005''" by (simp add: win_host_def)
  have ep: "environ_CP_JDWP_PORT posix_host = None" by (simp add: posix_host_def)
  have hw: "headless_args win_host = [''-Djava.awt.headless=true'']"
    by (simp add: headless_args_def win_host_def)
  have hp: "headless_args posix_host = []"
    by (simp add: headless_args_def posix_host_def)
  have sv: "fst (start_vm flag_bridge args cp (vm fresh)) = None" for args cp
    by (simp add: flag_bridge_def)
  from debug_agent_flag [OF i not_too_short_win_host, where port = "''5005''"]
  have w: "\<exists>args rest.
      startup_args win_host = Inr args
      \<and> new_events fresh (snd (start_java win_host flag_bridge fresh))
           = StartVm args (get_jars win_host) None # rest
      \<and> args ! 4 = ''-agentlib:jdwp=transport=dt_socket,address=127.0.0.1:5005,server=y,suspend=n''
      \<and> length args = 5"
    unfolding sv logback_args_win_host hw using ew by auto
  from debug_agent_flag [OF i not_too_short_posix_host, where port = "''5005''"]
  have p: "\<exists>args rest.
      startup_args posix_host = Inr args
      \<and> new_events fresh (snd (start_java posix_host flag_bridge fresh))
           = StartVm args (get_jars posix_host) None # rest
      \<and> args = [''-Dloci.bioformats.loaded=true'',
                 ''-Djava.util.prefs.PreferencesFactory=org.cellprofiler.headlesspreferences.HeadlessPreferencesFactory'',
                 ''-Dlogback.configurationFile=./logback.xml'']"
    unfolding sv logback_args_posix hp using ep by auto
  from w p show ?thesis by blast
qed

section \<open>Two threads\<close>

lemma thread_run_start_java:
  "thread_run h B 5 (Entry, s) = (Returned (fst (start_java h B s)), snd (start_java h B s))"
  by (simp add: eval_nat_numeral start_java_def cold_start_def split: prod.splits option.splits sum.splits)

lemma call_traces [simp]:
  "trace (snd (call_start_vm B a cp s)) = trace s @ [StartVm a cp (fst (start_vm B a cp (vm s)))]"
  "trace (snd (call_attach B s)) = trace s @ [Attach (fst (attach B (vm s)))]"
  "trace (snd (call_cacheDirectoryListings B s))
     = trace s @ [CacheDirectoryListings (fst (cacheDirectoryListings B (vm s)))]"
  by (simp_all add: call_start_vm_def call_attach_def call_cacheDirectoryListings_def
      split: prod.splits)

lemma thread_step_pending:
  "start_vm_calls (trace (snd (thread_step h B p s))) + pending (fst (thread_step h B p s))
     \<le> start_vm_calls (trace s) + pending p"
  by (cases p)
     (auto simp: pending_def before_start_def call_start_vm_def call_attach_def
        call_cacheDirectoryListings_def split: prod.splits option.splits sum.splits)

lemma thread_step_mono:
  "start_vm_calls (trace s) \<le> start_vm_calls (trace (snd (thread_step h B p s)))"
  by (cases p)
     (auto simp: call_start_vm_def call_attach_def
        call_cacheDirectoryListings_def split: prod.splits option.splits sum.splits)

lemma thread_step_first:
  assumes "before_start p" and "\<not> is_active B (vm s)" and "startup_args h = Inr args"
  shows "(vm (snd (thread_step h B p s)) = vm s \<and> before_start (fst (thread_step h B p s)))
     \<or> start_vm_calls (trace s) + 1 \<le> start_vm_calls (trace (snd (thread_step h B p s)))"
  using assms
  by (cases p)
     (auto simp: before_start_def call_start_vm_def split: prod.splits option.splits)

lemma thread_step_cold:
  assumes "p \<noteq> Entry" and "startup_args h = Inr args"
  shows "fst (thread_step h B p s) \<noteq> Entry
     \<and> start_vm_calls (trace (snd (thread_step h B p s))) + in_cold_start (fst (thread_step h B p s))
         = start_vm_calls (trace s) + in_cold_start p"
  using assms
  by (cases p)
     (auto simp: in_cold_start_def call_start_vm_def call_attach_def
        call_cacheDirectoryListings_def split: prod.splits option.splits)

lemma thread_step_returned:
  assumes "is_Returned p \<or> (p = Entry \<and> is_active B (vm s))"
  shows "is_Returned (fst (thread_step h B p s))
     \<and> start_vm_calls (trace (snd (thread_step h B p s))) = start_vm_calls (trace s)"
  using assms
  by (cases p) (auto simp: is_Returned_def call_attach_def split: prod.splits)

lemma thread_step_returned_same:
  "is_Returned p \<Longrightarrow> thread_step h B p s = (p, s)"
  by (cases p) (auto simp: is_Returned_def)

lemma run_pending:
  "calls_of (run h B sch (p1, p2, s)) + pending (fst (run h B sch (p1, p2, s)))
      + pending (fst (snd (run h B sch (p1, p2, s))))
     \<le> start_vm_calls (trace s) + pending p1 + pending p2"
proof (induction sch arbitrary: p1 p2 s)
  case Nil
  then show ?case by (simp add: calls_of_def)
next
  case (Cons t sch)
  show ?case
  proof (cases t)
    case T1
    obtain p s1 where st: "thread_step h B p1 s = (p, s1)" by (cases "thread_step h B p1 s")
    from thread_step_pending [of h B p1 s] st
    have "start_vm_calls (trace s1) + pending p \<le> start_vm_calls (trace s) + pending p1" by simp
    moreover note Cons.IH [of p p2 s1]
    ultimately show ?thesis using T1 st by simp
  next
    case T2
    obtain p s1 where st: "thread_step h B p2 s = (p, s1)" by (cases "thread_step h B p2 s")
    from thread_step_pending [of h B p2 s] st
    have "start_vm_calls (trace s1) + pending p \<le> start_vm_calls (trace s) + pending p2" by simp
    moreover note Cons.IH [of p1 p s1]
    ultimately show ?thesis using T2 st by simp
  qed
qed

lemma run_at_most_two:
  "calls_of (run h B sch (Entry, Entry, s)) \<le> start_vm_calls (trace s) + 2"
  using run_pending [of h B sch Entry Entry s]
  by (simp add: pending_def before_start_def)


text \<open>
  While no bridge start has been made the bridge state is the initial one, so neither
  thread can leave the part of \<open>start_java\<close> before the bridge start by the attach-only path.
\<close>

lemma run_at_least_one_inv:
  assumes "\<not> is_active B v0" and "startup_args h = Inr args"
    and "n0 \<le> start_vm_calls (trace s)"
    and "n0 + 1 \<le> start_vm_calls (trace s) \<or> (vm s = v0 \<and> before_start p1 \<and> before_start p2)"
  shows "n0 + 1 \<le> calls_of (run h B sch (p1, p2, s))
     \<or> (before_start (fst (run h B sch (p1, p2, s)))
         \<and> before_start (fst (snd (run h B sch (p1, p2, s)))))"
  using assms(3,4)
proof (induction sch arbitrary: p1 p2 s)
  case Nil
  then show ?case by (auto simp: calls_of_def)
next
  case (Cons t sch)
  show ?case
  proof (cases t)
    case T1
    obtain p s1 where st: "thread_step h B p1 s = (p, s1)" by (cases "thread_step h B p1 s")
    have m: "start_vm_calls (trace s) \<le> start_vm_calls (trace s1)"
      using thread_step_mono [of s h B p1] st by simp
    have "n0 + 1 \<le> start_vm_calls (trace s1) \<or> (vm s1 = v0 \<and> before_start p \<and> before_start p2)"
    proof (cases "n0 + 1 \<le> start_vm_calls (trace s)")
      case True
      then show ?thesis using m by simp
    next
      case False
      with Cons.prems have b: "vm s = v0" "before_start p1" "before_start p2" by auto
      from thread_step_first [OF b(2) _ assms(2), of B s] assms(1) b(1) st Cons.prems(1)
      show ?thesis using b(3) by auto
    qed
    moreover have "n0 \<le> start_vm_calls (trace s1)" using m Cons.prems(1) by simp
    ultimately show ?thesis using Cons.IH [of s1 p p2] T1 st by simp
  next
    case T2
    obtain p s1 where st: "thread_step h B p2 s = (p, s1)" by (cases "thread_step h B p2 s")
    have m: "start_vm_calls (trace s) \<le> start_vm_calls (trace s1)"
      using thread_step_mono [of s h B p2] st by simp
    have "n0 + 1 \<le> start_vm_calls (trace s1) \<or> (vm s1 = v0 \<and> before_start p1 \<and> before_start p)"
    proof (cases "n0 + 1 \<le> start_vm_calls (trace s)")
      case True
      then show ?thesis using m by simp
    next
      case False
      with Cons.prems have b: "vm s = v0" "before_start p1" "before_start p2" by auto
      from thread_step_first [OF b(3) _ assms(2), of B s] assms(1) b(1) st Cons.prems(1)
      show ?thesis using b(2) by auto
    qed
    moreover have "n0 \<le> start_vm_calls (trace s1)" using m Cons.prems(1) by simp
    ultimately show ?thesis using Cons.IH [of s1 p1 p] T2 st by simp
  qed
qed

lemma before_start_not_Returned: "is_Returned p \<Longrightarrow> \<not> before_start p"
  by (auto simp: is_Returned_def before_start_def)

lemma run_at_least_one:
  assumes "\<not> is_active B (vm s)" and "startup_args h = Inr args"
    and "is_Returned (fst (run h B sch (Entry, Entry, s)))"
  shows "start_vm_calls (trace s) + 1 \<le> calls_of (run h B sch (Entry, Entry, s))"
  using run_at_least_one_inv [OF assms(1,2), of "start_vm_calls (trace s)" s Entry Entry sch]
    before_start_not_Returned [OF assms(3)]
  by (simp add: before_start_def)

text \<open>Once both threads are past the test of line 92, each of them makes its own bridge start.\<close>

lemma run_cold_inv:
  assumes "startup_args h = Inr args" and "p1 \<noteq> Entry" and "p2 \<noteq> Entry"
  shows "calls_of (run h B sch (p1, p2, s))
           + in_cold_start (fst (run h B sch (p1, p2, s)))
           + in_cold_start (fst (snd (run h B sch (p1, p2, s))))
         = start_vm_calls (trace s) + in_cold_start p1 + in_cold_start p2"
  using assms(2,3)
proof (induction sch arbitrary: p1 p2 s)
  case Nil
  then show ?case by (simp add: calls_of_def)
next
  case (Cons t sch)
  show ?case
  proof (cases t)
    case T1
    obtain p s1 where st: "thread_step h B p1 s = (p, s1)" by (cases "thread_step h B p1 s")
    from thread_step_cold [OF Cons.prems(1) assms(1), of B s] st
    have "p \<noteq> Entry"
      and "start_vm_calls (trace s1) + in_cold_start p = start_vm_calls (trace s) + in_cold_start p1"
      by simp_all
    then show ?thesis using Cons.IH [of p p2 s1] Cons.prems(2) T1 st by simp
  next
    case T2
    obtain p s1 where st: "thread_step h B p2 s = (p, s1)" by (cases "thread_step h B p2 s")
    from thread_step_cold [OF Cons.prems(2) assms(1), of B s] st
    have "p \<noteq> Entry"
      and "start_vm_calls (trace s1) + in_cold_start p = start_vm_calls (trace s) + in_cold_start p2"
      by simp_all
    then show ?thesis using Cons.IH [of p1 p s1] Cons.prems(1) T2 st by simp
  qed
qed

lemma run_both_checked:
  assumes "\<not> is_active B (vm s)" and "startup_args h = Inr args"
    and "is_Returned (fst (run h B (T1 # T2 # sch) (Entry, Entry, s)))"
    and "is_Returned (fst (snd (run h B (T1 # T2 # sch) (Entry, Entry, s))))"
  shows "calls_of (run h B (T1 # T2 # sch) (Entry, Entry, s)) = start_vm_calls (trace s) + 2"
proof -
  have r: "run h B (T1 # T2 # sch) (Entry, Entry, s) = run h B sch (ColdStart, ColdStart, s)"
    using assms(1) by simp
  have "in_cold_start (fst (run h B sch (ColdStart, ColdStart, s))) = 0"
    using assms(3) unfolding r by (auto simp: in_cold_start_def is_Returned_def)
  moreover have "in_cold_start (fst (snd (run h B sch (ColdStart, ColdStart, s)))) = 0"
    using assms(4) unfolding r by (auto simp: in_cold_start_def is_Returned_def)
  ultimately show ?thesis
    using run_cold_inv [OF assms(2), of ColdStart ColdStart B sch s] unfolding r
    by (simp add: in_cold_start_def)
qed

text \<open>The first thread alone, to its return, is one call of \<open>start_java\<close>.\<close>

lemma run_append: "run h B (xs @ ys) c = run h B ys (run h B xs c)"
  by (induction xs arbitrary: c) simp_all

lemma run_serial:
  "run h B serial (Entry, p2, s) = (Returned (fst (start_java h B s)), p2, snd (start_java h B s))"
  by (simp add: serial_def start_java_def cold_start_def
      split: prod.splits option.splits sum.splits)

lemma run_returned_inv:
  assumes "is_Returned p1" and "is_Returned p2 \<or> (p2 = Entry \<and> is_active B (vm s))"
  shows "calls_of (run h B sch (p1, p2, s)) = start_vm_calls (trace s)"
  using assms(2)
proof (induction sch arbitrary: p2 s)
  case Nil
  then show ?case by (simp add: calls_of_def)
next
  case (Cons t sch)
  show ?case
  proof (cases t)
    case T1
    then show ?thesis
      using Cons.IH [of p2 s] Cons.prems thread_step_returned_same [OF assms(1), of h B s] by simp
  next
    case T2
    obtain p s1 where st: "thread_step h B p2 s = (p, s1)" by (cases "thread_step h B p2 s")
    from thread_step_returned [OF Cons.prems, of h] st
    have "is_Returned p" and "start_vm_calls (trace s1) = start_vm_calls (trace s)" by simp_all
    then show ?thesis using Cons.IH [of p s1] T2 st by simp
  qed
qed

lemma run_serial_once:
  assumes "\<not> is_active B (vm s)" and "startup_args h = Inr args"
    and "is_active B (vm (snd (start_java h B s)))"
  shows "calls_of (run h B (serial @ sch) (Entry, Entry, s)) = start_vm_calls (trace s) + 1"
proof -
  have "calls_of (run h B (serial @ sch) (Entry, Entry, s))
          = start_vm_calls (trace (snd (start_java h B s)))"
    unfolding run_append run_serial
    by (rule run_returned_inv) (simp_all add: is_Returned_def assms(3))
  moreover have "start_vm_calls (trace (snd (start_java h B s))) = start_vm_calls (trace s) + 1"
    using start_java_inactive_outcome [OF assms(1), of h] assms(2) by auto
  ultimately show ?thesis by simp
qed

lemma run_racy:
  "run win_host flag_bridge racy (Entry, Entry, fresh) =
     (Returned (Inr ()), Returned (Inr ()),
      \<lparr>JAVA_STARTED = True, vm = True,
       trace = [StartVm win_args (get_jars win_host) None,
                StartVm win_args (get_jars win_host) None,
                Attach None, Attach None,
                CacheDirectoryListings None, CacheDirectoryListings None]\<rparr>)"
  by (simp add: racy_def startup_args_win_host call_start_vm_def call_attach_def
      call_cacheDirectoryListings_def flag_bridge_def fresh_def)

lemma racy_eq: "T1 # T2 # [T1, T2, T1, T2, T1, T2, T1, T2] = racy"
  by (simp add: racy_def)

text \<open>
  Claim C2, as stated: two threads in \<open>start_java\<close> with the bridge inactive make one
  bridge start in total. With the threads alternating, both pass the test of line 92
  before either reaches line 126, both return normally, and the bridge start has been
  called twice.
\<close>

theorem concurrent_start_twice_counterexample:
  "\<not> is_active flag_bridge (vm fresh)
   \<and> is_Returned (fst (run win_host flag_bridge racy (Entry, Entry, fresh)))
   \<and> is_Returned (fst (snd (run win_host flag_bridge racy (Entry, Entry, fresh))))
   \<and> start_vm_calls (trace fresh) = 0
   \<and> calls_of (run win_host flag_bridge racy (Entry, Entry, fresh)) = 2"
  unfolding run_racy
  by (simp add: calls_of_def is_Returned_def flag_bridge_def fresh_def)

text \<open>
  Claim C2, amended: two threads in \<open>start_java\<close> make at most two bridge starts in
  total, whatever the schedule. When the bridge is inactive at the beginning and the
  argument list can be built, a schedule in which the threads return makes at least
  one; it makes exactly two when both threads pass the test of line 92 before either
  goes on, since the module takes no lock; and it makes exactly one when the first
  thread runs to its return before the second begins and the bridge then reports
  active.
\<close>

theorem concurrent_start_bounds:
  "calls_of (run h B sch (Entry, Entry, s)) \<le> start_vm_calls (trace s) + 2
   \<and> (\<not> is_active B (vm s) \<and> startup_args h = Inr args
        \<and> is_Returned (fst (run h B sch (Entry, Entry, s)))
        \<and> is_Returned (fst (snd (run h B sch (Entry, Entry, s))))
       \<longrightarrow> start_vm_calls (trace s) + 1 \<le> calls_of (run h B sch (Entry, Entry, s)))
   \<and> (\<not> is_active B (vm s) \<and> startup_args h = Inr args
        \<and> is_Returned (fst (run h B (T1 # T2 # sch) (Entry, Entry, s)))
        \<and> is_Returned (fst (snd (run h B (T1 # T2 # sch) (Entry, Entry, s))))
       \<longrightarrow> calls_of (run h B (T1 # T2 # sch) (Entry, Entry, s)) = start_vm_calls (trace s) + 2)
   \<and> (\<not> is_active B (vm s) \<and> startup_args h = Inr args
        \<and> is_active B (vm (snd (start_java h B s)))
       \<longrightarrow> calls_of (run h B (serial @ sch) (Entry, Entry, s)) = start_vm_calls (trace s) + 1)"
proof (intro conjI impI)
  show "calls_of (run h B sch (Entry, Entry, s)) \<le> start_vm_calls (trace s) + 2"
    by (rule run_at_most_two)
next
  assume "\<not> is_active B (vm s) \<and> startup_args h = Inr args
        \<and> is_Returned (fst (run h B sch (Entry, Entry, s)))
        \<and> is_Returned (fst (snd (run h B sch (Entry, Entry, s))))"
  then show "start_vm_calls (trace s) + 1 \<le> calls_of (run h B sch (Entry, Entry, s))"
    using run_at_least_one by blast
next
  assume "\<not> is_active B (vm s) \<and> startup_args h = Inr args
        \<and> is_Returned (fst (run h B (T1 # T2 # sch) (Entry, Entry, s)))
        \<and> is_Returned (fst (snd (run h B (T1 # T2 # sch) (Entry, Entry, s))))"
  then show "calls_of (run h B (T1 # T2 # sch) (Entry, Entry, s)) = start_vm_calls (trace s) + 2"
    using run_both_checked by blast
next
  assume "\<not> is_active B (vm s) \<and> startup_args h = Inr args
        \<and> is_active B (vm (snd (start_java h B s)))"
  then show "calls_of (run h B (serial @ sch) (Entry, Entry, s)) = start_vm_calls (trace s) + 1"
    using run_serial_once by blast
qed

theorem concurrent_start_bounds_witness:
  "calls_of (run win_host flag_bridge racy (Entry, Entry, fresh)) \<le> 2
   \<and> 1 \<le> calls_of (run win_host flag_bridge racy (Entry, Entry, fresh))
   \<and> calls_of (run win_host flag_bridge racy (Entry, Entry, fresh)) = 2
   \<and> calls_of (run win_host flag_bridge (serial @ [T1, T2, T1, T2, T1, T2, T1, T2])
        (Entry, Entry, fresh)) = 1"
proof -
  have i: "\<not> is_active flag_bridge (vm fresh)" by (simp add: flag_bridge_def fresh_def)
  have a: "is_active flag_bridge (vm (snd (start_java win_host flag_bridge fresh)))"
    unfolding start_java_win_fresh by (simp add: flag_bridge_def started_def)
  have r1: "is_Returned (fst (run win_host flag_bridge racy (Entry, Entry, fresh)))"
    unfolding run_racy by (simp add: is_Returned_def)
  have r2: "is_Returned (fst (snd (run win_host flag_bridge racy (Entry, Entry, fresh))))"
    unfolding run_racy by (simp add: is_Returned_def)
  have z: "start_vm_calls (trace fresh) = 0" by (simp add: fresh_def)
  note t = concurrent_start_bounds
      [where h = win_host and B = flag_bridge and s = fresh and args = win_args
         and sch = "[T1, T2, T1, T2, T1, T2, T1, T2]", unfolded racy_eq]
  note u = concurrent_start_bounds
      [where h = win_host and B = flag_bridge and s = fresh and args = win_args and sch = racy]
  show ?thesis
    using t u i a r1 r2 z startup_args_win_host by simp
qed

end
